theory Spec2Isabelle
  imports Main
begin

section \<open>Data model of the board page\<close>

text \<open>
  Identifiers (board, list, task and user ids) are JavaScript strings. The page reads only
  the \<open>id\<close> of a task, the \<open>id\<close> and \<open>tasks\<close> of a list and the \<open>lists\<close> of a board.
  Indices are JavaScript numbers; \<open>Array.prototype.findIndex\<close> answers \<open>-1\<close> when no
  element matches, so indices are modelled as \<open>int\<close>.
\<close>

type_synonym ident = string

record task =
  task_id :: ident

record tlist =
  list_id :: ident
  tasks :: "task list"

record board =
  lists :: "tlist list"

text \<open>The object \<open>{ listId, index }\<close> returned by \<open>resolveDropTarget\<close>.\<close>

record drop_target =
  listId :: ident
  index :: int

text \<open>The object \<open>{ listId, position }\<close> kept in \<open>dragOriginRef\<close>.\<close>

record drag_origin =
  origin_listId :: ident
  position :: int

subsection \<open>Array helpers\<close>

text \<open>\<open>Array.prototype.findIndex\<close>: the index of the first match, \<open>-1\<close> without one.\<close>

fun findIndex :: "('a \<Rightarrow> bool) \<Rightarrow> 'a list \<Rightarrow> int" where
  "findIndex P [] = - 1"
| "findIndex P (x # xs) =
     (if P x then 0
      else (let i = findIndex P xs in if i = - 1 then - 1 else i + 1))"

text \<open>
  \<open>Array.prototype.find\<close> is \<^const>\<open>List.find\<close> (\<open>undefined\<close> is \<open>None\<close>) and
  \<open>Array.prototype.some\<close> is \<^const>\<open>list_ex\<close>.
\<close>

subsection \<open>Helpers of the page\<close>

text \<open>\<open>findListContainingTask\<close>: the first list that holds a task with the given id.\<close>

definition findListContainingTask :: "board option \<Rightarrow> ident \<Rightarrow> tlist option" where
  "findListContainingTask currentBoard taskId =
     (case currentBoard of
        None \<Rightarrow> None
      | Some b \<Rightarrow> find (\<lambda>l. list_ex (\<lambda>t. task_id t = taskId) (tasks l)) (lists b))"

text \<open>The \<open>for \<dots> of\<close> loop of \<open>resolveDropTarget\<close> over the lists of the board.\<close>

fun resolveTaskTarget :: "tlist list \<Rightarrow> ident \<Rightarrow> drop_target option" where
  "resolveTaskTarget [] overId = None"
| "resolveTaskTarget (l # ls) overId =
     (let idx = findIndex (\<lambda>t. task_id t = overId) (tasks l)
      in if idx \<noteq> - 1 then Some \<lparr>listId = list_id l, index = idx\<rparr>
         else resolveTaskTarget ls overId)"

definition resolveDropTarget :: "board option \<Rightarrow> ident \<Rightarrow> drop_target option" where
  "resolveDropTarget currentBoard overId =
     (case currentBoard of
        None \<Rightarrow> None
      | Some b \<Rightarrow>
          (case find (\<lambda>l. list_id l = overId) (lists b) of
             Some l \<Rightarrow> Some \<lparr>listId = list_id l, index = int (length (tasks l))\<rparr>
           | None \<Rightarrow> resolveTaskTarget (lists b) overId))"

subsection \<open>State of the page and the calls it makes\<close>

text \<open>
  The page component holds the board read from the board store (\<open>currentBoard\<close>), the React
  state \<open>activeTask\<close> and the ref \<open>dragOriginRef\<close>. The handlers are \<open>useCallback\<close>
  closures over the \<open>currentBoard\<close> value of the render that created them, and every read
  of a handler goes through \<open>findListContainingTask\<close> and \<open>resolveDropTarget\<close>, which close
  over the same value: within one call of a handler all reads see that one board value.
  A store action replaces the board held by the store and the component renders again
  with the new board; the board value a handler has closed over is not changed by it.
  What a handler does to the outside is the sequence of calls it makes on the stores, in
  the order in which it makes them.
\<close>

record page =
  currentBoard :: "board option"
  activeTask :: "task option"
  dragOriginRef :: "drag_origin option"

datatype toast_type = Success | Error | Info

datatype effect =
    OptimisticMoveTask ident ident ident int
      \<comment> \<open>\<open>optimisticMoveTask(taskId, fromListId, toListId, newPosition)\<close>\<close>
  | MoveTask ident ident ident int
      \<comment> \<open>\<open>moveTask(boardId, taskId, { list_id, position })\<close>, the persistence request\<close>
  | AddToast string toast_type
  | FetchBoard ident

fun isMoveTask :: "effect \<Rightarrow> bool" where
  "isMoveTask (MoveTask _ _ _ _) = True"
| "isMoveTask _ = False"

fun isFetchBoard :: "effect \<Rightarrow> bool" where
  "isFetchBoard (FetchBoard _) = True"
| "isFetchBoard _ = False"

fun isNetworkCall :: "effect \<Rightarrow> bool" where
  "isNetworkCall (MoveTask _ _ _ _) = True"
| "isNetworkCall (FetchBoard _) = True"
| "isNetworkCall _ = False"

subsection \<open>Drag handlers\<close>

text \<open>The \<open>for \<dots> of\<close> loop of \<open>handleDragStart\<close>, left by \<open>break\<close> at the first list
  that holds the task.\<close>

fun captureOrigin :: "tlist list \<Rightarrow> ident \<Rightarrow> (task \<times> drag_origin) option" where
  "captureOrigin [] taskId = None"
| "captureOrigin (l # ls) taskId =
     (case find (\<lambda>t. task_id t = taskId) (tasks l) of
        Some t \<Rightarrow>
          Some (t, \<lparr>origin_listId = list_id l,
                    position = findIndex (\<lambda>t. task_id t = taskId) (tasks l)\<rparr>)
      | None \<Rightarrow> captureOrigin ls taskId)"

definition handleDragStart :: "page \<Rightarrow> ident \<Rightarrow> page" where
  "handleDragStart s taskId =
     (case currentBoard s of
        None \<Rightarrow> s
      | Some b \<Rightarrow>
          (case captureOrigin (lists b) taskId of
             None \<Rightarrow> s
           | Some (t, org) \<Rightarrow> s\<lparr>activeTask := Some t, dragOriginRef := Some org\<rparr>))"

text \<open>\<open>handleDragOver\<close>; \<open>over\<close> is \<open>None\<close> when the event has no \<open>over\<close> element.\<close>

definition handleDragOver :: "page \<Rightarrow> ident \<Rightarrow> ident option \<Rightarrow> effect list" where
  "handleDragOver s activeId over =
     (case over of
        None \<Rightarrow> []
      | Some overId \<Rightarrow>
          (case currentBoard s of
             None \<Rightarrow> []
           | Some b \<Rightarrow>
               (case findListContainingTask (currentBoard s) activeId of
                  None \<Rightarrow> []
                | Some activeList \<Rightarrow>
                    (case resolveDropTarget (currentBoard s) overId of
                       None \<Rightarrow> []
                     | Some target \<Rightarrow>
                         if list_id activeList = listId target then []
                         else [OptimisticMoveTask activeId (list_id activeList)
                                 (listId target) (index target)]))))"

text \<open>
  \<open>handleDragEnd\<close>, from the lookup of the final destination on (lines 157 to 170 of the
  page). \<open>moveTaskResolves\<close> says whether the promise of \<open>moveTask\<close> resolves; when it
  rejects, the \<open>catch\<close> block runs.
\<close>

definition persistFinal ::
  "ident \<Rightarrow> bool \<Rightarrow> page \<Rightarrow> drag_origin \<Rightarrow> ident \<Rightarrow> effect list" where
  "persistFinal boardId moveTaskResolves s origin taskId =
     (case findListContainingTask (currentBoard s) taskId of
        None \<Rightarrow> []
      | Some finalList \<Rightarrow>
          (let finalPosition = findIndex (\<lambda>t. task_id t = taskId) (tasks finalList)
           in if origin_listId origin = list_id finalList \<and> position origin = finalPosition
              then []
              else MoveTask boardId taskId (list_id finalList) finalPosition #
                   (if moveTaskResolves then []
                    else [AddToast ''Failed to move task'' Error, FetchBoard boardId])))"

text \<open>
  \<open>handleDragEnd\<close>: the new React state of the page (\<open>activeTask\<close> and \<open>dragOriginRef\<close>
  are cleared before anything else) and the calls made.
\<close>

definition handleDragEnd ::
  "ident \<Rightarrow> bool \<Rightarrow> page \<Rightarrow> ident \<Rightarrow> ident option \<Rightarrow> page \<times> effect list" where
  "handleDragEnd boardId moveTaskResolves s taskId over =
     (s\<lparr>activeTask := None, dragOriginRef := None\<rparr>,
      (case over of
         None \<Rightarrow> []
       | Some overId \<Rightarrow>
           (case currentBoard s of
              None \<Rightarrow> []
            | Some b \<Rightarrow>
                (case dragOriginRef s of
                   None \<Rightarrow> []
                 | Some origin \<Rightarrow>
                     (case findListContainingTask (currentBoard s) taskId of
                        None \<Rightarrow> []
                      | Some currentList \<Rightarrow>
                          (case resolveDropTarget (currentBoard s) overId of
                             None \<Rightarrow> []
                           | Some target \<Rightarrow>
                               (let currentIdx =
                                      findIndex (\<lambda>t. task_id t = taskId) (tasks currentList)
                                in if list_id currentList = listId target
                                   then
                                     (if currentIdx = index target
                                      then
                                        (if origin_listId origin = list_id currentList
                                            \<and> position origin = currentIdx
                                         then []
                                         else persistFinal boardId moveTaskResolves s
                                                origin taskId)
                                      else
                                        OptimisticMoveTask taskId (list_id currentList)
                                          (listId target) (index target) #
                                        persistFinal boardId moveTaskResolves s origin taskId)
                                   else persistFinal boardId moveTaskResolves s
                                          origin taskId)))))))"

section \<open>The board store\<close>

text \<open>
  Modelled from the spec: the insertion "at the target index" (4.1) of the missing store
  action: \<open>x\<close> is put before index \<open>i\<close>, and at the end when \<open>i\<close> is not below the length
  (a drop on a list container asks for the index equal to the task count).
\<close>

definition insertAt :: "int \<Rightarrow> 'a \<Rightarrow> 'a list \<Rightarrow> 'a list" where
  "insertAt i x xs = take (nat i) xs @ x # drop (nat i) xs"

text \<open>
  Modelled from the spec: what the missing store action \<open>optimisticMoveTask\<close> does to one
  list (4.1): the moved task is removed from the source list and inserted at the target
  index of the destination list; within one list the target index is taken in the
  sequence left after the removal, so that the task ends at the destination position.
\<close>

definition moveInList :: "ident \<Rightarrow> ident \<Rightarrow> ident \<Rightarrow> int \<Rightarrow> task \<Rightarrow> tlist \<Rightarrow> tlist" where
  "moveInList taskId fromListId toListId newPosition t l =
     (let l1 = (if list_id l = fromListId
                then l\<lparr>tasks := filter (\<lambda>x. task_id x \<noteq> taskId) (tasks l)\<rparr> else l)
      in if list_id l1 = toListId
         then l1\<lparr>tasks := insertAt newPosition t (tasks l1)\<rparr> else l1)"

text \<open>
  Modelled from the spec: the store action \<open>optimisticMoveTask\<close> of \<open>useBoardStore\<close>, which
  the page calls and which is not among the sources. The spec (4.1, 4.2): compute the
  resulting sequences after removing the moved task from its source and inserting it at
  the target index within the (possibly different) destination list. The spec does not
  say what happens when the source list, the task in it, or the destination list does not
  exist; the board is then left as it is.
\<close>

definition optimisticMoveTask :: "ident \<Rightarrow> ident \<Rightarrow> ident \<Rightarrow> int \<Rightarrow> board \<Rightarrow> board" where
  "optimisticMoveTask taskId fromListId toListId newPosition b =
     (case find (\<lambda>l. list_id l = fromListId) (lists b) of
        None \<Rightarrow> b
      | Some src \<Rightarrow>
          (case find (\<lambda>t. task_id t = taskId) (tasks src) of
             None \<Rightarrow> b
           | Some t \<Rightarrow>
               (case find (\<lambda>l. list_id l = toListId) (lists b) of
                  None \<Rightarrow> b
                | Some dst \<Rightarrow>
                    b\<lparr>lists := map (moveInList taskId fromListId toListId newPosition t)
                                 (lists b)\<rparr>)))"

text \<open>
  Modelled from the spec: the move-application transformation keyed by task id, destination
  list id and destination position (4.4), used for a repeated drag-over and for a
  broadcast "task moved" event. The source of the move is the list that holds the task
  now, found as the page finds it.
\<close>

definition applyMove :: "ident \<Rightarrow> ident \<Rightarrow> int \<Rightarrow> board \<Rightarrow> board" where
  "applyMove taskId toListId newPosition b =
     (case findListContainingTask (Some b) taskId of
        None \<Rightarrow> b
      | Some src \<Rightarrow> optimisticMoveTask taskId (list_id src) toListId newPosition b)"


text \<open>
  Modelled from the spec: what the calls of a handler do to the board held by the store.
  \<open>fetchBoard\<close> of \<open>useBoardStore\<close> and \<open>moveTask\<close> of \<open>useTaskStore\<close> are not among the
  sources. The spec (4.3, 6): the re-fetch returns the complete current board state, which
  replaces the local one (\<open>fetched\<close> is that state); a move request leaves the local state
  as it is.
\<close>

fun storeApply :: "board \<Rightarrow> effect \<Rightarrow> board option \<Rightarrow> board option" where
  "storeApply fetched (OptimisticMoveTask taskId fromListId toListId newPosition) cb =
     map_option (optimisticMoveTask taskId fromListId toListId newPosition) cb"
| "storeApply fetched (MoveTask boardId taskId lid pos) cb = cb"
| "storeApply fetched (AddToast msg ty) cb = cb"
| "storeApply fetched (FetchBoard boardId) cb = Some fetched"

text \<open>
  Modelled from the spec: the board of the store after a sequence of calls, each applied
  as above.
\<close>

definition storeRun :: "board \<Rightarrow> effect list \<Rightarrow> board option \<Rightarrow> board option" where
  "storeRun fetched effs cb = fold (storeApply fetched) effs cb"

subsection \<open>Tasks with their positions\<close>

text \<open>
  Modelled from the spec: the task as the store holds it. The type of a task is not among
  the sources; the spec (3): a task has a stable identifier and "a position, an integer or
  rank used to order it among siblings". The page reads only the identifier.
\<close>

record stored_task = task +
  task_position :: int

text \<open>Modelled from the spec: a list and a board of such tasks (3), as the store holds
  them.\<close>

record stored_list =
  stored_list_id :: ident
  stored_tasks :: "stored_task list"

record stored_board =
  stored_lists :: "stored_list list"

text \<open>What the page reads of them.\<close>

definition pageTask :: "stored_task \<Rightarrow> task" where
  "pageTask t = \<lparr>task_id = task_id t\<rparr>"

definition pageList :: "stored_list \<Rightarrow> tlist" where
  "pageList sl = \<lparr>list_id = stored_list_id sl, tasks = map pageTask (stored_tasks sl)\<rparr>"

definition pageBoard :: "stored_board \<Rightarrow> board" where
  "pageBoard sb = \<lparr>lists = map pageList (stored_lists sb)\<rparr>"





subsection \<open>Invariants of a board\<close>

definition taskIds :: "tlist \<Rightarrow> ident list" where
  "taskIds l = map task_id (tasks l)"

text \<open>
  The data model of the spec (3): lists have stable, distinct identifiers; within a list no
  task occurs twice; no task is in two lists.
\<close>

definition wf_board :: "board \<Rightarrow> bool" where
  "wf_board b \<longleftrightarrow>
     distinct (map list_id (lists b)) \<and>
     (\<forall>l \<in> set (lists b). distinct (taskIds l)) \<and>
     (\<forall>l1 \<in> set (lists b). \<forall>l2 \<in> set (lists b).
        list_id l1 \<noteq> list_id l2 \<longrightarrow> set (taskIds l1) \<inter> set (taskIds l2) = {})"




section \<open>Member search of the board-members modal\<close>

record user_search_result =
  user_id :: ident
  first_name :: string
  last_name :: string

record board_member =
  member_user_id :: ident

record board_detail =
  owner_id :: ident
  members :: "board_member list"

record modal =
  results :: "user_search_result list"
  searching :: bool

definition existingIds :: "board_detail \<Rightarrow> ident set" where
  "existingIds b = set (owner_id b # map member_user_id (members b))"

text \<open>
  The body of the debounced timer callback. \<open>response\<close> is the outcome of
  \<open>searchUsers\<close>: \<open>None\<close> when the request fails, which the \<open>catch\<close> block handles; the
  \<open>finally\<close> block clears \<open>searching\<close> in both cases.
\<close>

definition searchCallback ::
  "board_detail \<Rightarrow> user_search_result list option \<Rightarrow> modal \<Rightarrow> modal" where
  "searchCallback b response m =
     (case response of
        Some users \<Rightarrow>
          m\<lparr>results := filter (\<lambda>u. user_id u \<notin> existingIds b) users, searching := False\<rparr>
      | None \<Rightarrow> m\<lparr>results := [], searching := False\<rparr>)"

section \<open>Example boards\<close>

definition T1 :: task where "T1 = \<lparr>task_id = ''T1''\<rparr>"
definition T2 :: task where "T2 = \<lparr>task_id = ''T2''\<rparr>"
definition T3 :: task where "T3 = \<lparr>task_id = ''T3''\<rparr>"

definition boardAB :: board where
  "boardAB = \<lparr>lists = [\<lparr>list_id = ''A'', tasks = [T1, T2, T3]\<rparr>,
                       \<lparr>list_id = ''B'', tasks = []\<rparr>]\<rparr>"

definition listA :: tlist where
  "listA = \<lparr>list_id = ''A'', tasks = [T1, T2, T3]\<rparr>"

text \<open>A board on which the id of the second list is also the id of a task of the first.\<close>

definition listL1 :: tlist where
  "listL1 = \<lparr>list_id = ''L1'', tasks = [\<lparr>task_id = ''L2''\<rparr>]\<rparr>"

definition boardClash :: board where
  "boardClash = \<lparr>lists = [listL1, \<lparr>list_id = ''L2'', tasks = [T1]\<rparr>]\<rparr>"

section \<open>A drag gesture, step by step\<close>

text \<open>
  After the store calls of a drag-over the store holds the new board, the component renders
  again and the next handler closes over that board.
\<close>

definition afterDragOver :: "board \<Rightarrow> page \<Rightarrow> ident \<Rightarrow> ident option \<Rightarrow> page" where
  "afterDragOver fetched s activeId over =
     s\<lparr>currentBoard := storeRun fetched (handleDragOver s activeId over) (currentBoard s)\<rparr>"

definition pageAB :: page where
  "pageAB = \<lparr>currentBoard = Some boardAB, activeTask = None, dragOriginRef = None\<rparr>"

text \<open>\<open>T2\<close> is picked up and hovers over the empty list \<open>B\<close>.\<close>

definition pageT2 :: page where
  "pageT2 = handleDragStart pageAB ''T2''"

definition pageT2overB :: page where
  "pageT2overB = afterDragOver boardAB pageT2 ''T2'' (Some ''B'')"

definition boardMoved :: board where
  "boardMoved = \<lparr>lists = [\<lparr>list_id = ''A'', tasks = [T1, T3]\<rparr>,
                          \<lparr>list_id = ''B'', tasks = [T2]\<rparr>]\<rparr>"

text \<open>\<open>T3\<close> is picked up and hovers over \<open>T1\<close> of its own list.\<close>

definition pageT3 :: page where
  "pageT3 = handleDragStart pageAB ''T3''"

definition listBmoved :: tlist where
  "listBmoved = \<lparr>list_id = ''B'', tasks = [T2]\<rparr>"

text \<open>A board owned by \<open>u1\<close> with the member \<open>u2\<close>, and a search answer of three users.\<close>

definition detail12 :: board_detail where
  "detail12 = \<lparr>owner_id = ''u1'', members = [\<lparr>member_user_id = ''u2''\<rparr>]\<rparr>"

definition userOf :: "ident \<Rightarrow> user_search_result" where
  "userOf i = \<lparr>user_id = i, first_name = ''Ada'', last_name = ''Bo''\<rparr>"

definition modal0 :: modal where
  "modal0 = \<lparr>results = [userOf ''u9''], searching = True\<rparr>"

definition listB :: tlist where
  "listB = \<lparr>list_id = ''B'', tasks = []\<rparr>"





text \<open>\<open>T3\<close> moved to the head of \<open>A\<close>.\<close>

definition boardT3first :: board where
  "boardT3first = \<lparr>lists = [\<lparr>list_id = ''A'', tasks = [T3, T1, T2]\<rparr>,
                            \<lparr>list_id = ''B'', tasks = []\<rparr>]\<rparr>"

section \<open>Properties\<close>

subsection \<open>Lookups\<close>

lemma findIndex_ge: "- 1 \<le> findIndex P xs"
  by (induction xs) (auto simp: Let_def)

lemma findIndex_none: "findIndex P xs = - 1 \<longleftrightarrow> \<not> list_ex P xs"
proof (induction xs)
  case Nil
  show ?case by simp
next
  case (Cons x xs)
  have "- 1 \<le> findIndex P xs" by (rule findIndex_ge)
  with Cons show ?case by (auto simp: Let_def)
qed

lemma findIndex_found:
  "list_ex P xs \<Longrightarrow>
     0 \<le> findIndex P xs \<and> nat (findIndex P xs) < length xs \<and> P (xs ! nat (findIndex P xs))
     \<and> (\<forall>j < nat (findIndex P xs). \<not> P (xs ! j))"
proof (induction xs)
  case Nil
  then show ?case by simp
next
  case (Cons x xs)
  show ?case
  proof (cases "P x")
    case True
    then show ?thesis by simp
  next
    case False
    with Cons.prems have ex: "list_ex P xs" by simp
    then have ne: "findIndex P xs \<noteq> - 1" by (simp add: findIndex_none)
    from Cons.IH [OF ex] have ih: "0 \<le> findIndex P xs" "nat (findIndex P xs) < length xs"
      "P (xs ! nat (findIndex P xs))" "\<forall>j < nat (findIndex P xs). \<not> P (xs ! j)" by auto
    have n: "nat (findIndex P xs + 1) = Suc (nat (findIndex P xs))" using ih(1) by simp
    show ?thesis using False ne ih n by (auto simp: Let_def less_Suc_eq_0_disj)
  qed
qed

lemma resolveTaskTarget_find:
  "resolveTaskTarget ls overId =
     (case find (\<lambda>l. list_ex (\<lambda>t. task_id t = overId) (tasks l)) ls of
        None \<Rightarrow> None
      | Some l \<Rightarrow> Some \<lparr>listId = list_id l, index = findIndex (\<lambda>t. task_id t = overId) (tasks l)\<rparr>)"
  by (induction ls) (auto simp: Let_def findIndex_none)

lemma resolve_list_id:
  assumes f: "find (\<lambda>l. list_id l = overId) (lists b) = Some l"
  shows "resolveDropTarget (Some b) overId
           = Some \<lparr>listId = list_id l, index = int (length (tasks l))\<rparr>"
  using f by (simp add: resolveDropTarget_def)

lemma resolve_task_id:
  assumes nl: "\<not> list_ex (\<lambda>l. list_id l = overId) (lists b)"
    and fl: "findListContainingTask (Some b) overId = Some l"
  shows "resolveDropTarget (Some b) overId
           = Some \<lparr>listId = list_id l, index = findIndex (\<lambda>t. task_id t = overId) (tasks l)\<rparr>"
proof -
  from nl have "find (\<lambda>l. list_id l = overId) (lists b) = None"
    by (auto simp: find_None_iff list_ex_iff)
  moreover from fl
  have "find (\<lambda>l. list_ex (\<lambda>t. task_id t = overId) (tasks l)) (lists b) = Some l"
    by (simp add: findListContainingTask_def)
  ultimately show ?thesis
    by (simp add: resolveDropTarget_def resolveTaskTarget_find)
qed

lemma findListContainingTask_holds:
  "findListContainingTask cb taskId = Some l \<Longrightarrow> list_ex (\<lambda>t. task_id t = taskId) (tasks l)"
  by (auto simp: findListContainingTask_def find_Some_iff split: option.splits)

lemma resolve_unknown:
  assumes "\<not> list_ex (\<lambda>l. list_id l = overId) (lists b)"
    and "\<not> list_ex (\<lambda>l. list_ex (\<lambda>t. task_id t = overId) (tasks l)) (lists b)"
  shows "resolveDropTarget (Some b) overId = None"
proof -
  from assms have "find (\<lambda>l. list_id l = overId) (lists b) = None"
    "find (\<lambda>l. list_ex (\<lambda>t. task_id t = overId) (tasks l)) (lists b) = None"
    by (auto simp: find_None_iff list_ex_iff)
  then show ?thesis
    by (simp add: resolveDropTarget_def resolveTaskTarget_find)
qed

subsection \<open>The drop-target resolver\<close>

text \<open>
  C3 (as amended). For every board and hovered identifier, \<open>resolveDropTarget\<close> returns
  the id of the list with that id together with that list's task count when the
  identifier is a list id; when the identifier is not a list id and is the id of a task,
  it returns the id of the first list holding such a task together with the index of the
  first such task in it; and it returns null when the identifier is neither a list id nor
  a task id, and when no board is loaded.
\<close>

theorem resolveDropTarget_cases:
  "(find (\<lambda>l. list_id l = overId) (lists b) = Some l \<longrightarrow>
      resolveDropTarget (Some b) overId
        = Some \<lparr>listId = list_id l, index = int (length (tasks l))\<rparr>)
   \<and> (\<not> list_ex (\<lambda>l. list_id l = overId) (lists b) \<and>
      findListContainingTask (Some b) overId = Some l \<longrightarrow>
      (\<exists>i. resolveDropTarget (Some b) overId = Some \<lparr>listId = list_id l, index = int i\<rparr>
          \<and> i < length (tasks l) \<and> task_id (tasks l ! i) = overId
          \<and> (\<forall>j < i. task_id (tasks l ! j) \<noteq> overId)))
   \<and> (\<not> list_ex (\<lambda>l. list_id l = overId) (lists b) \<and>
      \<not> list_ex (\<lambda>l. list_ex (\<lambda>t. task_id t = overId) (tasks l)) (lists b) \<longrightarrow>
      resolveDropTarget (Some b) overId = None)
   \<and> resolveDropTarget None overId = None"
proof -
  have second: "\<exists>i. resolveDropTarget (Some b) overId = Some \<lparr>listId = list_id l, index = int i\<rparr>
          \<and> i < length (tasks l) \<and> task_id (tasks l ! i) = overId
          \<and> (\<forall>j < i. task_id (tasks l ! j) \<noteq> overId)"
    if nl: "\<not> list_ex (\<lambda>l. list_id l = overId) (lists b)"
      and fl: "findListContainingTask (Some b) overId = Some l"
  proof -
    let ?i = "findIndex (\<lambda>t. task_id t = overId) (tasks l)"
    from findIndex_found [OF findListContainingTask_holds [OF fl]]
    have "0 \<le> ?i" "nat ?i < length (tasks l)" "task_id (tasks l ! nat ?i) = overId"
      "\<forall>j < nat ?i. task_id (tasks l ! j) \<noteq> overId"
      by auto
    with resolve_task_id [OF nl fl] show ?thesis
      by (intro exI [of _ "nat ?i"]) simp
  qed
  have first: "resolveDropTarget (Some b) overId
        = Some \<lparr>listId = list_id l, index = int (length (tasks l))\<rparr>"
    if "find (\<lambda>l. list_id l = overId) (lists b) = Some l"
    using that by (rule resolve_list_id)
  have third: "resolveDropTarget (Some b) overId = None"
    if "\<not> list_ex (\<lambda>l. list_id l = overId) (lists b)"
      and "\<not> list_ex (\<lambda>l. list_ex (\<lambda>t. task_id t = overId) (tasks l)) (lists b)"
    using that by (rule resolve_unknown)
  have fourth: "resolveDropTarget None overId = None"
    by (simp add: resolveDropTarget_def)
  from first second third fourth show ?thesis
    by (intro conjI impI; (elim conjE)?) assumption+
qed

theorem resolveDropTarget_cases_witness:
  "find (\<lambda>l. list_id l = ''A'') (lists boardAB) = Some listA
   \<and> resolveDropTarget (Some boardAB) ''A'' = Some \<lparr>listId = ''A'', index = 3\<rparr>
   \<and> \<not> list_ex (\<lambda>l. list_id l = ''T2'') (lists boardAB)
   \<and> findListContainingTask (Some boardAB) ''T2'' = Some listA
   \<and> (\<exists>i. resolveDropTarget (Some boardAB) ''T2'' = Some \<lparr>listId = ''A'', index = int i\<rparr>
         \<and> i < 3 \<and> task_id ([T1, T2, T3] ! i) = ''T2'')
   \<and> \<not> list_ex (\<lambda>l. list_ex (\<lambda>t. task_id t = ''T9'') (tasks l)) (lists boardAB)
   \<and> \<not> list_ex (\<lambda>l. list_id l = ''T9'') (lists boardAB)
   \<and> resolveDropTarget (Some boardAB) ''T9'' = None"
proof -
  have h1: "find (\<lambda>l. list_id l = ''A'') (lists boardAB) = Some listA"
    by (simp add: boardAB_def listA_def)
  have h2: "\<not> list_ex (\<lambda>l. list_id l = ''T2'') (lists boardAB)"
    by (simp add: boardAB_def)
  have h3: "findListContainingTask (Some boardAB) ''T2'' = Some listA"
    by (simp add: findListContainingTask_def boardAB_def listA_def T1_def T2_def T3_def)
  have h4: "\<not> list_ex (\<lambda>l. list_ex (\<lambda>t. task_id t = ''T9'') (tasks l)) (lists boardAB)"
    by (simp add: boardAB_def T1_def T2_def T3_def)
  have h5: "\<not> list_ex (\<lambda>l. list_id l = ''T9'') (lists boardAB)"
    by (simp add: boardAB_def)
  show ?thesis
    using h1 h2 h3 h4 h5
      resolveDropTarget_cases [of "''A''" boardAB listA]
      resolveDropTarget_cases [of "''T2''" boardAB listA]
      resolveDropTarget_cases [of "''T9''" boardAB listA]
    by (auto simp: listA_def)
qed

text \<open>
  C3 as stated fails where a task id is also a list id: the list is looked up first. On
  \<open>boardClash\<close> the identifier \<open>L2\<close> is the id of the task at index 0 of list \<open>L1\<close>, and
  the resolver answers list \<open>L2\<close> with that list's task count.
\<close>

theorem resolveDropTarget_task_id_counterexample:
  "findListContainingTask (Some boardClash) ''L2'' = Some listL1
   \<and> task_id (tasks listL1 ! 0) = ''L2''
   \<and> resolveDropTarget (Some boardClash) ''L2'' \<noteq> Some \<lparr>listId = list_id listL1, index = 0\<rparr>
   \<and> resolveDropTarget (Some boardClash) ''L2'' = Some \<lparr>listId = ''L2'', index = 1\<rparr>"
  by (simp add: findListContainingTask_def resolveDropTarget_def boardClash_def listL1_def
      T1_def)

subsection \<open>What a drag end sends\<close>

lemma handleDragEnd_over_None [simp]:
  "snd (handleDragEnd boardId ok s taskId None) = []"
  by (simp add: handleDragEnd_def)


lemma persistFinal_moved:
  assumes "findListContainingTask (currentBoard s) taskId = Some l"
    and "\<not> (origin_listId org = list_id l
            \<and> position org = findIndex (\<lambda>t. task_id t = taskId) (tasks l))"
  shows "persistFinal boardId ok s org taskId =
           MoveTask boardId taskId (list_id l) (findIndex (\<lambda>t. task_id t = taskId) (tasks l)) #
           (if ok then [] else [AddToast ''Failed to move task'' Error, FetchBoard boardId])"
  using assms by (simp add: persistFinal_def Let_def)

lemma persistFinal_cases:
  "persistFinal boardId ok s org taskId = [] \<or>
   (\<exists>lid pos. persistFinal boardId ok s org taskId =
      MoveTask boardId taskId lid pos #
      (if ok then [] else [AddToast ''Failed to move task'' Error, FetchBoard boardId]))"
  by (simp add: persistFinal_def Let_def split: option.splits)

lemma handleDragEnd_cases:
  "snd (handleDragEnd boardId ok s taskId over) = [] \<or>
   (\<exists>org. dragOriginRef s = Some org \<and>
      (snd (handleDragEnd boardId ok s taskId over) = persistFinal boardId ok s org taskId \<or>
      (\<exists>f d p. snd (handleDragEnd boardId ok s taskId over) =
         OptimisticMoveTask taskId f d p # persistFinal boardId ok s org taskId)))"
  by (simp add: handleDragEnd_def Let_def split: option.splits)

lemmas gesture_eval =
  handleDragOver_def handleDragEnd_def persistFinal_def
      pageT2_def pageT2overB_def pageT3_def afterDragOver_def handleDragStart_def pageAB_def
      boardAB_def boardMoved_def listA_def listBmoved_def T1_def T2_def T3_def
      findListContainingTask_def resolveDropTarget_def storeRun_def optimisticMoveTask_def
      moveInList_def insertAt_def




text \<open>
  A drop over a resolvable target, with the origin captured and the task found, whose list
  and index as the handler reads them differ from the origin, makes exactly one
  \<open>moveTask\<close> call, with the task's id, the id of that list and that index.
\<close>

lemma handleDragEnd_request_as_read:
  assumes "over = Some overId"
    and "dragOriginRef s = Some org"
    and "findListContainingTask (currentBoard s) taskId = Some l"
    and "resolveDropTarget (currentBoard s) overId = Some target"
    and "\<not> (origin_listId org = list_id l
            \<and> position org = findIndex (\<lambda>t. task_id t = taskId) (tasks l))"
  shows "filter isMoveTask (snd (handleDragEnd boardId ok s taskId over)) =
           [MoveTask boardId taskId (list_id l) (findIndex (\<lambda>t. task_id t = taskId) (tasks l))]"
proof -
  from assms(3) obtain b where b: "currentBoard s = Some b"
    by (cases "currentBoard s") (simp_all add: findListContainingTask_def)
  have pf: "persistFinal boardId ok s org taskId =
           MoveTask boardId taskId (list_id l) (findIndex (\<lambda>t. task_id t = taskId) (tasks l)) #
           (if ok then [] else [AddToast ''Failed to move task'' Error, FetchBoard boardId])"
    using assms(3,5) by (rule persistFinal_moved)
  have "snd (handleDragEnd boardId ok s taskId over) = persistFinal boardId ok s org taskId
      \<or> snd (handleDragEnd boardId ok s taskId over) =
          OptimisticMoveTask taskId (list_id l) (listId target) (index target) #
          persistFinal boardId ok s org taskId"
    using assms b unfolding handleDragEnd_def by (auto simp: Let_def)
  with pf show ?thesis by auto
qed

text \<open>
  C9, at the claim's own example: \<open>T3\<close> is picked up at index 2 of \<open>A = [T1, T2, T3]\<close> and
  dropped on \<open>T1\<close> of the same list, so that no drag-over move was made. \<open>handleDragEnd\<close>
  calls the store's reorder, after which the store holds \<open>A = [T3, T1, T2]\<close>; it then
  looks the task up through the board it closed over, finds it at the origin and returns.
  Its only call is that reorder: no \<open>moveTask\<close> call is made, where the claim has exactly
  one request, with the final index 0.
\<close>

theorem handleDragEnd_reorder_not_persisted:
  "dragOriginRef pageT3 = Some \<lparr>origin_listId = ''A'', position = 2\<rparr>
   \<and> currentBoard pageT3 = Some boardAB
   \<and> handleDragOver pageT3 ''T3'' (Some ''T1'') = []
   \<and> snd (handleDragEnd ''b1'' True pageT3 ''T3'' (Some ''T1''))
       = [OptimisticMoveTask ''T3'' ''A'' ''A'' 0]
   \<and> storeRun boardAB (snd (handleDragEnd ''b1'' True pageT3 ''T3'' (Some ''T1'')))
       (currentBoard pageT3) = Some boardT3first
   \<and> filter isMoveTask (snd (handleDragEnd ''b1'' True pageT3 ''T3'' (Some ''T1''))) = []"
  by (simp add: gesture_eval boardT3first_def)

subsection \<open>A drop without a target\<close>

lemma handleDragEnd_unresolved:
  "resolveDropTarget (currentBoard s) overId = None \<Longrightarrow>
     snd (handleDragEnd boardId ok s taskId (Some overId)) = []"
  by (simp add: handleDragEnd_def split: option.splits)

lemma storeRun_Nil: "storeRun fetched [] cb = cb"
  by (simp add: storeRun_def)

text \<open>
  C4 (as amended). When the drop has no \<open>over\<close> element, or the resolver returns null for
  it, \<open>handleDragEnd\<close> clears the active task and the drag origin and makes no call at all:
  no move request, no notification and no re-fetch; the board of the store stays as the
  drag-over moves left it.
\<close>

theorem handleDragEnd_unresolved_no_effect:
  assumes "over = None \<or> (\<exists>overId. over = Some overId \<and> resolveDropTarget (currentBoard s) overId = None)"
  shows "handleDragEnd boardId ok s taskId over = (s\<lparr>activeTask := None, dragOriginRef := None\<rparr>, [])
     \<and> storeRun fetched (snd (handleDragEnd boardId ok s taskId over)) (currentBoard s) = currentBoard s"
proof -
  from assms have "snd (handleDragEnd boardId ok s taskId over) = []"
    by (auto simp: handleDragEnd_unresolved)
  moreover have "fst (handleDragEnd boardId ok s taskId over) = s\<lparr>activeTask := None, dragOriginRef := None\<rparr>"
    by (simp add: handleDragEnd_def)
  ultimately show ?thesis
    by (simp add: storeRun_Nil prod_eq_iff)
qed

theorem handleDragEnd_unresolved_no_effect_witness:
  "resolveDropTarget (currentBoard pageT2overB) ''T9'' = None
   \<and> currentBoard pageT2overB = Some boardMoved
   \<and> handleDragEnd ''b1'' True pageT2overB ''T2'' (Some ''T9'')
       = (pageT2overB\<lparr>activeTask := None, dragOriginRef := None\<rparr>, [])
   \<and> storeRun boardAB (snd (handleDragEnd ''b1'' True pageT2overB ''T2'' (Some ''T9'')))
       (currentBoard pageT2overB) = currentBoard pageT2overB"
proof -
  have r: "resolveDropTarget (currentBoard pageT2overB) ''T9'' = None"
    by (simp add: gesture_eval)
  then have h: "Some ''T9'' = None \<or>
      (\<exists>overId. Some ''T9'' = Some overId
         \<and> resolveDropTarget (currentBoard pageT2overB) overId = None)"
    by simp
  have cb: "currentBoard pageT2overB = Some boardMoved"
    by (simp add: gesture_eval)
  from handleDragEnd_unresolved_no_effect [OF h, of "''b1''" True "''T2''" boardAB] r cb
  show ?thesis by blast
qed

text \<open>
  C4 as stated fails: the drag-over of \<open>T2\<close> onto list \<open>B\<close> applies a cross-list move, and
  the drop that follows, over an identifier the resolver does not know or over nothing,
  makes no \<open>fetchBoard\<close> call.
\<close>

theorem handleDragEnd_no_refetch_counterexample:
  "handleDragOver pageT2 ''T2'' (Some ''B'') = [OptimisticMoveTask ''T2'' ''A'' ''B'' 0]
   \<and> currentBoard pageT2overB = Some boardMoved
   \<and> resolveDropTarget (currentBoard pageT2overB) ''T9'' = None
   \<and> \<not> list_ex isFetchBoard (snd (handleDragEnd ''b1'' True pageT2overB ''T2'' (Some ''T9'')))
   \<and> \<not> list_ex isFetchBoard (snd (handleDragEnd ''b1'' True pageT2overB ''T2'' None))"
  by (simp add: gesture_eval)

subsection \<open>A failed move request\<close>

lemma handleDragEnd_failed_shape:
  assumes "list_ex isMoveTask (snd (handleDragEnd boardId False s taskId over))"
  shows "\<exists>pre lid pos.
           snd (handleDragEnd boardId False s taskId over) =
             pre @ [MoveTask boardId taskId lid pos,
                    AddToast ''Failed to move task'' Error, FetchBoard boardId]
           \<and> (pre = [] \<or> (\<exists>f d p. pre = [OptimisticMoveTask taskId f d p]))"
proof -
  let ?effs = "snd (handleDragEnd boardId False s taskId over)"
  from handleDragEnd_cases [of boardId False s taskId over] assms
  obtain org where shape: "?effs = persistFinal boardId False s org taskId \<or>
      (\<exists>f d p. ?effs = OptimisticMoveTask taskId f d p # persistFinal boardId False s org taskId)"
    by auto
  with assms have "persistFinal boardId False s org taskId \<noteq> []"
    by auto
  with persistFinal_cases [of boardId False s org taskId]
  obtain lid pos where pf: "persistFinal boardId False s org taskId =
      [MoveTask boardId taskId lid pos, AddToast ''Failed to move task'' Error,
       FetchBoard boardId]"
    by auto
  from shape show ?thesis
  proof
    assume "?effs = persistFinal boardId False s org taskId"
    with pf have "?effs = [] @ [MoveTask boardId taskId lid pos,
        AddToast ''Failed to move task'' Error, FetchBoard boardId]"
      by simp
    then show ?thesis by blast
  next
    assume "\<exists>f d p. ?effs = OptimisticMoveTask taskId f d p # persistFinal boardId False s org taskId"
    then obtain f d p where
      "?effs = OptimisticMoveTask taskId f d p # persistFinal boardId False s org taskId"
      by blast
    with pf have "?effs = [OptimisticMoveTask taskId f d p] @ [MoveTask boardId taskId lid pos,
        AddToast ''Failed to move task'' Error, FetchBoard boardId]"
      by simp
    then show ?thesis by blast
  qed
qed

lemma storeRun_refetch:
  "storeRun fetched (pre @ [e1, e2, FetchBoard boardId]) cb = Some fetched"
  by (simp add: storeRun_def)

text \<open>
  C2. When \<open>handleDragEnd\<close> sends a move request and the request fails, the calls of the
  handler end with that one \<open>moveTask\<close> call, the error toast "Failed to move task" and one
  \<open>fetchBoard\<close> call of the board; nothing before them is a network call, so the request is
  sent once; and after these calls the store holds the fetched board.
\<close>

theorem handleDragEnd_failure_recovery:
  assumes "list_ex isMoveTask (snd (handleDragEnd boardId False s taskId over))"
  shows "(\<exists>pre lid pos.
           snd (handleDragEnd boardId False s taskId over) =
             pre @ [MoveTask boardId taskId lid pos,
                    AddToast ''Failed to move task'' Error, FetchBoard boardId]
           \<and> \<not> list_ex isNetworkCall pre)
    \<and> length (filter isMoveTask (snd (handleDragEnd boardId False s taskId over))) = 1
    \<and> storeRun fetched (snd (handleDragEnd boardId False s taskId over)) (currentBoard s)
           = Some fetched"
proof -
  from handleDragEnd_failed_shape [OF assms]
  obtain pre lid pos where
    effs: "snd (handleDragEnd boardId False s taskId over) =
             pre @ [MoveTask boardId taskId lid pos,
                    AddToast ''Failed to move task'' Error, FetchBoard boardId]"
    and pre: "pre = [] \<or> (\<exists>f d p. pre = [OptimisticMoveTask taskId f d p])"
    by blast
  from pre have local: "\<not> list_ex isNetworkCall pre" and none: "filter isMoveTask pre = []"
    by auto
  have "\<exists>pre lid pos.
           snd (handleDragEnd boardId False s taskId over) =
             pre @ [MoveTask boardId taskId lid pos,
                    AddToast ''Failed to move task'' Error, FetchBoard boardId]
           \<and> \<not> list_ex isNetworkCall pre"
    using effs local by blast
  moreover have "length (filter isMoveTask (snd (handleDragEnd boardId False s taskId over))) = 1"
    using none by (simp add: effs)
  moreover have "storeRun fetched (snd (handleDragEnd boardId False s taskId over))
      (currentBoard s) = Some fetched"
    unfolding effs by (rule storeRun_refetch)
  ultimately show ?thesis by blast
qed

theorem handleDragEnd_failure_recovery_witness:
  "list_ex isMoveTask (snd (handleDragEnd ''b1'' False pageT2overB ''T2'' (Some ''B'')))
   \<and> snd (handleDragEnd ''b1'' False pageT2overB ''T2'' (Some ''B''))
       = [OptimisticMoveTask ''T2'' ''B'' ''B'' 1, MoveTask ''b1'' ''T2'' ''B'' 0,
          AddToast ''Failed to move task'' Error, FetchBoard ''b1'']
   \<and> length (filter isMoveTask
         (snd (handleDragEnd ''b1'' False pageT2overB ''T2'' (Some ''B'')))) = 1
   \<and> storeRun boardAB (snd (handleDragEnd ''b1'' False pageT2overB ''T2'' (Some ''B'')))
       (currentBoard pageT2overB) = Some boardAB"
proof -
  have e: "snd (handleDragEnd ''b1'' False pageT2overB ''T2'' (Some ''B''))
       = [OptimisticMoveTask ''T2'' ''B'' ''B'' 1, MoveTask ''b1'' ''T2'' ''B'' 0,
          AddToast ''Failed to move task'' Error, FetchBoard ''b1'']"
    by (simp add: gesture_eval)
  then have h: "list_ex isMoveTask
      (snd (handleDragEnd ''b1'' False pageT2overB ''T2'' (Some ''B'')))"
    by simp
  from handleDragEnd_failure_recovery [OF h, of boardAB] h e
  show ?thesis by simp
qed

subsection \<open>Drag-over\<close>

text \<open>
  C5. \<open>handleDragOver\<close> makes no network call. When the dragged task is found in a list,
  the hovered identifier resolves to a target and the two list ids differ, its only call
  is the store's \<open>optimisticMoveTask\<close> of the task from its list to the target list at the
  target index. When there is no \<open>over\<close> element, the task or the target is not found, or
  the two list ids are equal, it makes no call and the board of the store is unchanged.
\<close>

theorem handleDragOver_local_only:
  "(\<forall>e \<in> set (handleDragOver s activeId over). \<not> isNetworkCall e)
   \<and> (over = Some overId \<and>
      findListContainingTask (currentBoard s) activeId = Some activeList \<and>
      resolveDropTarget (currentBoard s) overId = Some target \<and>
      list_id activeList \<noteq> listId target \<longrightarrow>
        handleDragOver s activeId over =
          [OptimisticMoveTask activeId (list_id activeList) (listId target) (index target)])
   \<and> (over = None \<or>
      findListContainingTask (currentBoard s) activeId = None \<or>
      (over = Some overId \<and> resolveDropTarget (currentBoard s) overId = None) \<or>
      (over = Some overId \<and>
       findListContainingTask (currentBoard s) activeId = Some activeList \<and>
       resolveDropTarget (currentBoard s) overId = Some target \<and>
       list_id activeList = listId target) \<longrightarrow>
        handleDragOver s activeId over = []
        \<and> storeRun fetched (handleDragOver s activeId over) (currentBoard s) = currentBoard s)"
proof -
  have a: "\<forall>e \<in> set (handleDragOver s activeId over). \<not> isNetworkCall e"
    by (auto simp: handleDragOver_def split: option.splits)
  have b: "handleDragOver s activeId over =
          [OptimisticMoveTask activeId (list_id activeList) (listId target) (index target)]"
    if "over = Some overId" "findListContainingTask (currentBoard s) activeId = Some activeList"
      "resolveDropTarget (currentBoard s) overId = Some target"
      "list_id activeList \<noteq> listId target"
    using that by (auto simp: handleDragOver_def findListContainingTask_def split: option.splits)
  have c: "handleDragOver s activeId over = []"
    if "over = None \<or>
      findListContainingTask (currentBoard s) activeId = None \<or>
      (over = Some overId \<and> resolveDropTarget (currentBoard s) overId = None) \<or>
      (over = Some overId \<and>
       findListContainingTask (currentBoard s) activeId = Some activeList \<and>
       resolveDropTarget (currentBoard s) overId = Some target \<and>
       list_id activeList = listId target)"
    using that by (auto simp: handleDragOver_def split: option.splits)
  from a b c show ?thesis
    by (simp add: storeRun_Nil)
qed

theorem handleDragOver_local_only_witness:
  "findListContainingTask (currentBoard pageT2) ''T2'' = Some listA
   \<and> resolveDropTarget (currentBoard pageT2) ''B'' = Some \<lparr>listId = ''B'', index = 0\<rparr>
   \<and> handleDragOver pageT2 ''T2'' (Some ''B'') = [OptimisticMoveTask ''T2'' ''A'' ''B'' 0]
   \<and> \<not> list_ex isNetworkCall (handleDragOver pageT2 ''T2'' (Some ''B''))
   \<and> resolveDropTarget (currentBoard pageT2) ''T1'' = Some \<lparr>listId = ''A'', index = 0\<rparr>
   \<and> handleDragOver pageT2 ''T2'' (Some ''T1'') = []
   \<and> storeRun boardMoved (handleDragOver pageT2 ''T2'' (Some ''T1'')) (currentBoard pageT2)
       = currentBoard pageT2"
proof -
  have h1: "findListContainingTask (currentBoard pageT2) ''T2'' = Some listA"
    by (simp add: gesture_eval)
  have h2: "resolveDropTarget (currentBoard pageT2) ''B'' = Some \<lparr>listId = ''B'', index = 0\<rparr>"
    by (simp add: gesture_eval)
  have h3: "resolveDropTarget (currentBoard pageT2) ''T1'' = Some \<lparr>listId = ''A'', index = 0\<rparr>"
    by (simp add: gesture_eval)
  have d: "list_id listA \<noteq> listId \<lparr>listId = ''B'', index = 0\<rparr>"
    and e: "list_id listA = listId \<lparr>listId = ''A'', index = 0\<rparr>"
    by (simp_all add: listA_def)
  have m: "handleDragOver pageT2 ''T2'' (Some ''B'') = [OptimisticMoveTask ''T2'' ''A'' ''B'' 0]"
    and n: "\<not> list_ex isNetworkCall (handleDragOver pageT2 ''T2'' (Some ''B''))"
    using handleDragOver_local_only
         [of pageT2 "''T2''" "Some ''B''" "''B''" listA "\<lparr>listId = ''B'', index = 0\<rparr>"]
       h1 h2 d
    by (simp_all add: listA_def list_ex_iff)
  have u: "handleDragOver pageT2 ''T2'' (Some ''T1'') = []
      \<and> storeRun boardMoved (handleDragOver pageT2 ''T2'' (Some ''T1'')) (currentBoard pageT2)
          = currentBoard pageT2"
    using handleDragOver_local_only
         [of pageT2 "''T2''" "Some ''T1''" "''T1''" listA "\<lparr>listId = ''A'', index = 0\<rparr>"
             boardMoved]
       h1 h3 e
    by blast
  from h1 h2 h3 m n u show ?thesis by blast
qed

subsection \<open>Member search\<close>

text \<open>
  C10. After a search answer, the results of the modal are the users of the answer whose
  id is neither the owner's id nor the user id of a member, in the order of the answer; so
  every user shown is neither the owner nor a member. After a failed search the results
  are empty.
\<close>

theorem searchCallback_results:
  "results (searchCallback b (Some users) m)
     = filter (\<lambda>u. user_id u \<noteq> owner_id b
                 \<and> user_id u \<notin> set (map member_user_id (members b))) users
   \<and> (\<forall>u \<in> set (results (searchCallback b (Some users) m)).
        user_id u \<noteq> owner_id b \<and> user_id u \<notin> set (map member_user_id (members b)))
   \<and> results (searchCallback b None m) = []"
  by (simp add: searchCallback_def existingIds_def)

theorem searchCallback_results_witness:
  "results (searchCallback detail12 (Some [userOf ''u1'', userOf ''u3'', userOf ''u2'']) modal0)
     = [userOf ''u3'']
   \<and> user_id (userOf ''u3'') \<noteq> owner_id detail12
   \<and> user_id (userOf ''u3'') \<notin> set (map member_user_id (members detail12))
   \<and> results (searchCallback detail12 None modal0) = []"
proof -
  have f: "filter (\<lambda>u. user_id u \<noteq> owner_id detail12
                 \<and> user_id u \<notin> set (map member_user_id (members detail12)))
             [userOf ''u1'', userOf ''u3'', userOf ''u2''] = [userOf ''u3'']"
    by (simp add: detail12_def userOf_def)
  note t = searchCallback_results
         [of detail12 "[userOf ''u1'', userOf ''u3'', userOf ''u2'']" modal0]
  from t have "results
      (searchCallback detail12 (Some [userOf ''u1'', userOf ''u3'', userOf ''u2'']) modal0)
     = filter (\<lambda>u. user_id u \<noteq> owner_id detail12
                 \<and> user_id u \<notin> set (map member_user_id (members detail12)))
             [userOf ''u1'', userOf ''u3'', userOf ''u2'']"
    by (rule conjunct1)
  from this f have r: "results
      (searchCallback detail12 (Some [userOf ''u1'', userOf ''u3'', userOf ''u2'']) modal0)
     = [userOf ''u3'']"
    by (rule trans)
  from t have q: "\<forall>u \<in> set (results
          (searchCallback detail12 (Some [userOf ''u1'', userOf ''u3'', userOf ''u2'']) modal0)).
        user_id u \<noteq> owner_id detail12
        \<and> user_id u \<notin> set (map member_user_id (members detail12))"
    by (rule conjunct1 [OF conjunct2])
  from t have n: "results (searchCallback detail12 None modal0) = []"
    by (rule conjunct2 [OF conjunct2])
  from q have "user_id (userOf ''u3'') \<noteq> owner_id detail12
      \<and> user_id (userOf ''u3'') \<notin> set (map member_user_id (members detail12))"
    unfolding r by simp
  with r n show ?thesis
    by (intro conjI) simp_all
qed

section \<open>The spec's move on a board that satisfies the data model\<close>

subsection \<open>Lists after a move\<close>

lemma find_map_iff:
  assumes "\<And>l. l \<in> set ls \<Longrightarrow> P (f l) \<longleftrightarrow> Q l"
  shows "find P (map f ls) = map_option f (find Q ls)"
  using assms by (induction ls) auto

lemma find_by_id:
  assumes "distinct (map list_id ls)" and "l \<in> set ls"
  shows "find (\<lambda>x. list_id x = list_id l) ls = Some l"
  using assms by (induction ls) (auto simp: image_iff)

lemma find_in_set: "find P xs = Some x \<Longrightarrow> x \<in> set xs \<and> P x"
  by (auto simp: find_Some_iff)

lemma list_id_moveInList [simp]:
  "list_id (moveInList taskId a d p t l) = list_id l"
  by (simp add: moveInList_def Let_def)

lemma set_take_drop: "set (take n xs) \<union> set (drop n xs) = set xs"
  by (metis append_take_drop_id set_append)

lemma filter_take_drop: "filter P (take n xs) @ filter P (drop n xs) = filter P xs"
  by (metis append_take_drop_id filter_append)


lemma filter_insertAt:
  assumes "\<not> P x"
  shows "filter P (insertAt i x xs) = filter P xs"
  using assms by (simp add: insertAt_def filter_take_drop)

lemma set_insertAt [simp]: "set (insertAt i x xs) = insert x (set xs)"
  using set_take_drop [of "nat i" xs] by (auto simp: insertAt_def)



text \<open>The ids of the tasks of a list after the move, for a list that does not hold the
  task unless it is the source.\<close>

lemma taskIds_moveInList_mem:
  assumes "task_id t = taskId" and "list_id l \<noteq> a \<longrightarrow> taskId \<notin> set (taskIds l)"
  shows "x \<in> set (taskIds (moveInList taskId a d p t l)) \<longleftrightarrow>
           (if x = taskId then list_id l = d else x \<in> set (taskIds l))"
  using assms by (auto simp: moveInList_def Let_def taskIds_def)


lemma moveInList_again:
  assumes "task_id t = taskId" and "list_id l \<noteq> a \<longrightarrow> taskId \<notin> set (taskIds l)"
  shows "moveInList taskId d d p t (moveInList taskId a d p t l) = moveInList taskId a d p t l"
proof (cases "list_id l = d")
  case False
  then show ?thesis by (auto simp: moveInList_def Let_def)
next
  case True
  let ?xs = "tasks (if list_id l = a
                then l\<lparr>tasks := filter (\<lambda>x. task_id x \<noteq> taskId) (tasks l)\<rparr> else l)"
  have no: "filter (\<lambda>x. task_id x \<noteq> taskId) ?xs = ?xs"
    using assms(2) by (auto simp: taskIds_def filter_id_conv)
  have "filter (\<lambda>x. task_id x \<noteq> taskId) (insertAt p t ?xs) = ?xs"
    using assms(1) no by (simp add: filter_insertAt)
  with True show ?thesis
    by (simp add: moveInList_def Let_def)
qed


lemma optimisticMoveTask_cases:
  "optimisticMoveTask taskId a d p b = b \<or>
   (\<exists>src t dst.
      find (\<lambda>l. list_id l = a) (lists b) = Some src \<and>
      find (\<lambda>x. task_id x = taskId) (tasks src) = Some t \<and>
      find (\<lambda>l. list_id l = d) (lists b) = Some dst \<and>
      optimisticMoveTask taskId a d p b = b\<lparr>lists := map (moveInList taskId a d p t) (lists b)\<rparr>)"
  by (auto simp: optimisticMoveTask_def split: option.splits)

lemma only_in_source:
  assumes wf: "wf_board b"
    and src: "find (\<lambda>l. list_id l = a) (lists b) = Some src"
    and t: "find (\<lambda>x. task_id x = taskId) (tasks src) = Some t"
    and l: "l \<in> set (lists b)"
  shows "list_id l \<noteq> a \<longrightarrow> taskId \<notin> set (taskIds l)"
proof
  assume ne: "list_id l \<noteq> a"
  from src have s: "src \<in> set (lists b)" "list_id src = a"
    using find_in_set [of "\<lambda>l. list_id l = a" "lists b" src] by auto
  from t have "t \<in> set (tasks src)" "task_id t = taskId"
    using find_in_set [of "\<lambda>x. task_id x = taskId" "tasks src" t] by auto
  then have "taskId \<in> set (taskIds src)"
    by (auto simp: taskIds_def)
  moreover from wf l s ne have "set (taskIds l) \<inter> set (taskIds src) = {}"
    by (auto simp: wf_board_def)
  ultimately show "taskId \<notin> set (taskIds l)"
    by auto
qed








lemma tasks_moveInList:
  "tasks (moveInList taskId a d p t l) =
     (if list_id l = d
      then insertAt p t (if list_id l = a
                         then filter (\<lambda>x. task_id x \<noteq> taskId) (tasks l) else tasks l)
      else (if list_id l = a
            then filter (\<lambda>x. task_id x \<noteq> taskId) (tasks l) else tasks l))"
  by (simp add: moveInList_def Let_def)

lemma task_in_moved:
  assumes tid: "task_id t = taskId" and only: "list_id l \<noteq> a \<longrightarrow> taskId \<notin> set (taskIds l)"
    and mem: "t' \<in> set (tasks (moveInList taskId a d p t l))" and t': "task_id t' = taskId"
  shows "t' = t"
proof (rule ccontr)
  assume ne: "t' \<noteq> t"
  let ?xs = "if list_id l = a then filter (\<lambda>x. task_id x \<noteq> taskId) (tasks l) else tasks l"
  from mem ne have "t' \<in> set ?xs"
    unfolding tasks_moveInList by (cases "list_id l = d") simp_all
  moreover have "\<forall>x \<in> set ?xs. task_id x \<noteq> taskId"
    using only by (cases "list_id l = a") (auto simp: taskIds_def)
  ultimately show False
    using t' by blast
qed

lemma optimisticMoveTask_absorb:
  assumes wf: "wf_board b"
    and src: "find (\<lambda>l. list_id l = a) (lists b) = Some src"
    and t: "find (\<lambda>x. task_id x = taskId) (tasks src) = Some t"
  shows "optimisticMoveTask taskId a' d p (b\<lparr>lists := map (moveInList taskId a d p t) (lists b)\<rparr>)
           = b\<lparr>lists := map (moveInList taskId a d p t) (lists b)\<rparr>"
proof -
  let ?M = "moveInList taskId a d p t"
  let ?b' = "b\<lparr>lists := map ?M (lists b)\<rparr>"
  have tid: "task_id t = taskId"
    using find_in_set [OF t] by simp
  have only: "list_id l \<noteq> a \<longrightarrow> taskId \<notin> set (taskIds l)" if "l \<in> set (lists b)" for l
    using only_in_source [OF wf src t that] .
  from optimisticMoveTask_cases [of taskId a' d p ?b'] show ?thesis
  proof
    assume "optimisticMoveTask taskId a' d p ?b' = ?b'"
    then show ?thesis .
  next
    assume "\<exists>src t' dst.
      find (\<lambda>l. list_id l = a') (lists ?b') = Some src \<and>
      find (\<lambda>x. task_id x = taskId) (tasks src) = Some t' \<and>
      find (\<lambda>l. list_id l = d) (lists ?b') = Some dst \<and>
      optimisticMoveTask taskId a' d p ?b'
        = ?b'\<lparr>lists := map (moveInList taskId a' d p t') (lists ?b')\<rparr>"
    then obtain src' t' where
      src': "find (\<lambda>l. list_id l = a') (lists ?b') = Some src'"
      and t': "find (\<lambda>x. task_id x = taskId) (tasks src') = Some t'"
      and eq: "optimisticMoveTask taskId a' d p ?b'
                 = ?b'\<lparr>lists := map (moveInList taskId a' d p t') (lists ?b')\<rparr>"
      by blast
    from find_in_set [OF src'] have sm: "src' \<in> set (map ?M (lists b))"
      and sid: "list_id src' = a'"
      by simp_all
    from sm have "src' \<in> ?M ` set (lists b)"
      by (simp only: set_map)
    then obtain l where l: "l \<in> set (lists b)" "src' = ?M l"
      by (rule imageE)
    from sid have la: "list_id l = a'"
      unfolding l(2) by (simp only: list_id_moveInList)
    from find_in_set [OF t'] have t'in: "t' \<in> set (tasks (?M l))" "task_id t' = taskId"
      using l(2) by simp_all
    then have "taskId \<in> set (taskIds (?M l))"
      by (auto simp: taskIds_def)
    then have "list_id l = d"
      by (simp add: taskIds_moveInList_mem [OF tid only [OF l(1)]])
    with la have a': "a' = d" by simp
    have tt: "t' = t"
      using task_in_moved [OF tid only [OF l(1)] t'in] .
    have "map (\<lambda>l. moveInList taskId d d p t (?M l)) (lists b) = map ?M (lists b)"
      by (rule map_cong [OF refl]) (rule moveInList_again [OF tid only])
    then have again: "map (moveInList taskId d d p t) (map ?M (lists b)) = map ?M (lists b)"
      by (simp only: map_map o_def)
    from eq have e2: "optimisticMoveTask taskId a' d p ?b'
            = b\<lparr>lists := map (moveInList taskId a' d p t') (map ?M (lists b))\<rparr>"
      by simp
    have "map (moveInList taskId a' d p t') (map ?M (lists b)) = map ?M (lists b)"
      unfolding a' tt by (rule again)
    with e2 show ?thesis
      by (simp only:)
  qed
qed

lemma optimisticMoveTask_then:
  assumes wf: "wf_board b"
  shows "optimisticMoveTask taskId a d p b = b \<or>
         (\<forall>a'. optimisticMoveTask taskId a' d p (optimisticMoveTask taskId a d p b)
                 = optimisticMoveTask taskId a d p b)"
proof -
  from optimisticMoveTask_cases [of taskId a d p b] show ?thesis
  proof
    assume "optimisticMoveTask taskId a d p b = b"
    then show ?thesis ..
  next
    assume "\<exists>src t dst.
      find (\<lambda>l. list_id l = a) (lists b) = Some src \<and>
      find (\<lambda>x. task_id x = taskId) (tasks src) = Some t \<and>
      find (\<lambda>l. list_id l = d) (lists b) = Some dst \<and>
      optimisticMoveTask taskId a d p b = b\<lparr>lists := map (moveInList taskId a d p t) (lists b)\<rparr>"
    then obtain src t where
      "find (\<lambda>l. list_id l = a) (lists b) = Some src"
      "find (\<lambda>x. task_id x = taskId) (tasks src) = Some t"
      "optimisticMoveTask taskId a d p b
                 = b\<lparr>lists := map (moveInList taskId a d p t) (lists b)\<rparr>"
      by blast
    then show ?thesis
      using optimisticMoveTask_absorb [OF wf] by simp
  qed
qed

lemma find_map_list_id:
  "find (\<lambda>l. list_id l = x) (map (moveInList taskId a d p t) ls)
     = map_option (moveInList taskId a d p t) (find (\<lambda>l. list_id l = x) ls)"
  by (rule find_map_iff) simp

lemma find_after_prefix:
  assumes "\<forall>x \<in> set pre. \<not> P x" and "P y"
  shows "find P (pre @ y # post) = Some y"
  using assms by (induction pre) simp_all

lemmas board_eval =
  boardAB_def boardMoved_def listA_def listB_def listBmoved_def T1_def T2_def T3_def

lemma wf_boardAB: "wf_board boardAB"
  by (simp add: wf_board_def taskIds_def board_eval)

subsection \<open>Moving a task to the head of another list\<close>

text \<open>
  C6. On a board that satisfies the data model, let list \<open>A\<close> hold task \<open>T\<close> (at position 0
  when nothing precedes it, that is \<open>pre = []\<close>) and let \<open>B\<close> be another list, possibly
  empty. The move of \<open>T\<close> from \<open>A\<close> to position 0 of \<open>B\<close> leaves in \<open>A\<close> the other tasks of
  \<open>A\<close> in their order, puts \<open>T\<close> first in \<open>B\<close> followed by the tasks of \<open>B\<close> in their order,
  and leaves every other list and the order of the lists as they were. With
  \<open>A = [T1, T2, T3]\<close> and \<open>B = []\<close>, moving \<open>T2\<close> gives \<open>A = [T1, T3]\<close> and \<open>B = [T2]\<close>.
\<close>

theorem optimisticMoveTask_to_head:
  assumes wf: "wf_board b"
    and A: "find (\<lambda>l. list_id l = a) (lists b) = Some A"
    and B: "find (\<lambda>l. list_id l = d) (lists b) = Some B"
    and ne: "a \<noteq> d"
    and at: "tasks A = pre @ t # rest"
  shows "find (\<lambda>l. list_id l = a) (lists (optimisticMoveTask (task_id t) a d 0 b))
           = Some (A\<lparr>tasks := pre @ rest\<rparr>)
       \<and> find (\<lambda>l. list_id l = d) (lists (optimisticMoveTask (task_id t) a d 0 b))
           = Some (B\<lparr>tasks := t # tasks B\<rparr>)
       \<and> (\<forall>x. x \<noteq> a \<and> x \<noteq> d \<longrightarrow>
            find (\<lambda>l. list_id l = x) (lists (optimisticMoveTask (task_id t) a d 0 b))
              = find (\<lambda>l. list_id l = x) (lists b))
       \<and> map list_id (lists (optimisticMoveTask (task_id t) a d 0 b)) = map list_id (lists b)"
proof -
  let ?M = "moveInList (task_id t) a d 0 t"
  from find_in_set [OF A] have Ain: "A \<in> set (lists b)" "list_id A = a" by simp_all
  from find_in_set [OF B] have Bin: "B \<in> set (lists b)" "list_id B = d" by simp_all
  from wf Ain(1) have "distinct (taskIds A)" by (simp add: wf_board_def)
  with at have "task_id t \<notin> set (map task_id pre)" "task_id t \<notin> set (map task_id rest)"
    by (simp_all add: taskIds_def)
  then have others: "\<forall>x \<in> set pre. task_id x \<noteq> task_id t"
    "\<forall>x \<in> set rest. task_id x \<noteq> task_id t"
    by (metis image_eqI set_map)+
  then have out: "filter (\<lambda>x. task_id x \<noteq> task_id t) (pre @ t # rest) = pre @ rest"
    by (simp add: filter_id_conv)
  from others(1) have ft: "find (\<lambda>x. task_id x = task_id t) (tasks A) = Some t"
    unfolding at by (intro find_after_prefix) simp_all
  have eq: "optimisticMoveTask (task_id t) a d 0 b = b\<lparr>lists := map ?M (lists b)\<rparr>"
    by (simp add: optimisticMoveTask_def A B ft)
  have MA: "?M A = A\<lparr>tasks := pre @ rest\<rparr>"
    using Ain(2) ne at out by (simp add: moveInList_def Let_def)
  have MB: "?M B = B\<lparr>tasks := t # tasks B\<rparr>"
    using Bin(2) ne by (simp add: moveInList_def Let_def insertAt_def)
  have other: "find (\<lambda>l. list_id l = x) (map ?M (lists b)) = find (\<lambda>l. list_id l = x) (lists b)"
    if "x \<noteq> a \<and> x \<noteq> d" for x
  proof (cases "find (\<lambda>l. list_id l = x) (lists b)")
    case None
    then show ?thesis by (simp add: find_map_list_id)
  next
    case (Some l)
    with find_in_set [OF Some] that have "?M l = l"
      by (simp add: moveInList_def Let_def)
    with Some show ?thesis by (simp add: find_map_list_id)
  qed
  show ?thesis
    unfolding eq using MA MB other by (simp add: find_map_list_id A B)
qed

theorem optimisticMoveTask_to_head_witness:
  "find (\<lambda>l. list_id l = ''A'') (lists (optimisticMoveTask ''T1'' ''A'' ''B'' 0 boardAB))
     = Some \<lparr>list_id = ''A'', tasks = [T2, T3]\<rparr>
   \<and> find (\<lambda>l. list_id l = ''B'') (lists (optimisticMoveTask ''T1'' ''A'' ''B'' 0 boardAB))
     = Some \<lparr>list_id = ''B'', tasks = [T1]\<rparr>
   \<and> find (\<lambda>l. list_id l = ''A'') (lists (optimisticMoveTask ''T2'' ''A'' ''B'' 0 boardAB))
     = Some \<lparr>list_id = ''A'', tasks = [T1, T3]\<rparr>
   \<and> find (\<lambda>l. list_id l = ''B'') (lists (optimisticMoveTask ''T2'' ''A'' ''B'' 0 boardAB))
     = Some \<lparr>list_id = ''B'', tasks = [T2]\<rparr>
   \<and> optimisticMoveTask ''T2'' ''A'' ''B'' 0 boardAB = boardMoved"
proof -
  have A: "find (\<lambda>l. list_id l = ''A'') (lists boardAB) = Some listA"
    by (simp add: board_eval)
  have B: "find (\<lambda>l. list_id l = ''B'') (lists boardAB) = Some listB"
    by (simp add: board_eval)
  have ne: "''A'' \<noteq> ''B''"
    by simp
  have at1: "tasks listA = [] @ T1 # [T2, T3]" and at2: "tasks listA = [T1] @ T2 # [T3]"
    by (simp_all add: listA_def)
  have id1: "task_id T1 = ''T1''" and id2: "task_id T2 = ''T2''"
    by (simp_all add: T1_def T2_def)
  have ex: "optimisticMoveTask ''T2'' ''A'' ''B'' 0 boardAB = boardMoved"
    by (simp add: optimisticMoveTask_def moveInList_def insertAt_def board_eval)
  from optimisticMoveTask_to_head [OF wf_boardAB A B ne at1] optimisticMoveTask_to_head [OF wf_boardAB A B ne at2] ex
  show ?thesis
    unfolding id1 id2 by (simp add: listA_def listB_def)
qed

subsection \<open>Invariants kept by sequences of moves\<close>

lemma task_id_pageTask [simp]: "task_id (pageTask t) = task_id t"
  by (simp add: pageTask_def)








lemma tasks_pageList [simp]: "tasks (pageList sl) = map pageTask (stored_tasks sl)"
  by (simp add: pageList_def)

lemma lists_pageBoard [simp]: "lists (pageBoard sb) = map pageList (stored_lists sb)"
  by (simp add: pageBoard_def)














subsection \<open>Applying a move twice\<close>

lemma handleDragOver_cases:
  "handleDragOver s activeId over = [] \<or>
   (\<exists>overId b activeList target.
      over = Some overId \<and> currentBoard s = Some b \<and>
      findListContainingTask (Some b) activeId = Some activeList \<and>
      resolveDropTarget (Some b) overId = Some target \<and>
      list_id activeList \<noteq> listId target \<and>
      handleDragOver s activeId over =
        [OptimisticMoveTask activeId (list_id activeList) (listId target) (index target)])"
  by (auto simp: handleDragOver_def split: option.splits)

lemma resolveDropTarget_Some_cases:
  assumes "resolveDropTarget (Some b) overId = Some target"
  shows "(\<exists>l. find (\<lambda>l. list_id l = overId) (lists b) = Some l \<and> listId target = list_id l)
       \<or> (find (\<lambda>l. list_id l = overId) (lists b) = None \<and>
          (\<exists>l. find (\<lambda>l. list_ex (\<lambda>t. task_id t = overId) (tasks l)) (lists b) = Some l
               \<and> listId target = list_id l))"
  using assms
  by (auto simp: resolveDropTarget_def resolveTaskTarget_find split: option.splits)

lemma list_ex_taskIds:
  "list_ex (\<lambda>t. task_id t = x) (tasks l) \<longleftrightarrow> x \<in> set (taskIds l)"
  by (auto simp: list_ex_iff taskIds_def)

lemma handleDragOver_repeat:
  assumes cb: "currentBoard s = Some b" and wf: "wf_board b"
  shows "handleDragOver (afterDragOver fetched s activeId over) activeId over = []"
proof -
  from handleDragOver_cases [of s activeId over] show ?thesis
  proof
    assume none: "handleDragOver s activeId over = []"
    then have "afterDragOver fetched s activeId over = s"
      by (simp add: afterDragOver_def storeRun_def)
    with none show ?thesis by simp
  next
    assume "\<exists>overId b activeList target.
      over = Some overId \<and> currentBoard s = Some b \<and>
      findListContainingTask (Some b) activeId = Some activeList \<and>
      resolveDropTarget (Some b) overId = Some target \<and>
      list_id activeList \<noteq> listId target \<and>
      handleDragOver s activeId over =
        [OptimisticMoveTask activeId (list_id activeList) (listId target) (index target)]"
    with cb obtain overId activeList target where
      over: "over = Some overId"
      and al: "findListContainingTask (Some b) activeId = Some activeList"
      and tg: "resolveDropTarget (Some b) overId = Some target"
      and cross: "list_id activeList \<noteq> listId target"
      and effs: "handleDragOver s activeId over =
        [OptimisticMoveTask activeId (list_id activeList) (listId target) (index target)]"
      by auto
    let ?a = "list_id activeList" and ?d = "listId target" and ?p = "index target"
    from al have fal: "find (\<lambda>l. list_ex (\<lambda>t. task_id t = activeId) (tasks l)) (lists b)
        = Some activeList"
      by (simp add: findListContainingTask_def)
    from find_in_set [OF fal] have alin: "activeList \<in> set (lists b)"
      and has: "list_ex (\<lambda>t. task_id t = activeId) (tasks activeList)"
      by simp_all
    from wf alin have src: "find (\<lambda>l. list_id l = ?a) (lists b) = Some activeList"
      by (intro find_by_id) (simp_all add: wf_board_def)
    from has obtain t where t: "find (\<lambda>x. task_id x = activeId) (tasks activeList) = Some t"
      by (cases "find (\<lambda>x. task_id x = activeId) (tasks activeList)")
        (auto simp: find_None_iff list_ex_iff)
    have tid: "task_id t = activeId"
      using find_in_set [OF t] by simp
    from resolveDropTarget_Some_cases [OF tg] obtain dst0 where
      "dst0 \<in> set (lists b)" "list_id dst0 = ?d"
      using find_in_set by fastforce
    then obtain dst where dst: "find (\<lambda>l. list_id l = ?d) (lists b) = Some dst"
      by (cases "find (\<lambda>l. list_id l = ?d) (lists b)") (auto simp: find_None_iff)
    let ?M = "moveInList activeId ?a ?d ?p t"
    let ?b' = "b\<lparr>lists := map ?M (lists b)\<rparr>"
    have eq: "optimisticMoveTask activeId ?a ?d ?p b = ?b'"
      by (simp add: optimisticMoveTask_def src t dst)
    have s': "currentBoard (afterDragOver fetched s activeId over) = Some ?b'"
      by (simp add: afterDragOver_def storeRun_def effs cb eq)
    have only: "list_id l \<noteq> ?a \<longrightarrow> activeId \<notin> set (taskIds l)" if "l \<in> set (lists b)" for l
      using only_in_source [OF wf src t that] .
    have mem: "x \<in> set (taskIds (?M l)) \<longleftrightarrow>
           (if x = activeId then list_id l = ?d else x \<in> set (taskIds l))"
      if "l \<in> set (lists b)" for l x
      using taskIds_moveInList_mem [OF tid only [OF that]] .
    have "find (\<lambda>l. list_ex (\<lambda>t. task_id t = activeId) (tasks l)) (map ?M (lists b))
            = map_option ?M (find (\<lambda>l. list_id l = ?d) (lists b))"
      by (rule find_map_iff) (simp add: list_ex_taskIds mem)
    then have al': "findListContainingTask (Some ?b') activeId = Some (?M dst)"
      by (simp add: findListContainingTask_def dst)
    have "\<exists>target'. resolveDropTarget (Some ?b') overId = Some target' \<and> listId target' = ?d"
      using resolveDropTarget_Some_cases [OF tg]
    proof
      assume "\<exists>l. find (\<lambda>l. list_id l = overId) (lists b) = Some l \<and> ?d = list_id l"
      then obtain l where "find (\<lambda>l. list_id l = overId) (lists b) = Some l" "?d = list_id l"
        by blast
      then show ?thesis
        by (simp add: resolveDropTarget_def find_map_list_id)
    next
      assume "find (\<lambda>l. list_id l = overId) (lists b) = None \<and>
          (\<exists>l. find (\<lambda>l. list_ex (\<lambda>t. task_id t = overId) (tasks l)) (lists b) = Some l
               \<and> ?d = list_id l)"
      then obtain l where nl: "find (\<lambda>l. list_id l = overId) (lists b) = None"
        and fl: "find (\<lambda>l. list_ex (\<lambda>t. task_id t = overId) (tasks l)) (lists b) = Some l"
        and dl: "?d = list_id l"
        by blast
      from find_in_set [OF fl] have lin: "l \<in> set (lists b)"
        and lhas: "overId \<in> set (taskIds l)"
        by (simp_all add: list_ex_taskIds)
      have "overId \<noteq> activeId"
      proof
        assume "overId = activeId"
        with lhas only [OF lin] have "list_id l = ?a" by auto
        with dl cross show False by simp
      qed
      then have "find (\<lambda>l. list_ex (\<lambda>t. task_id t = overId) (tasks l)) (map ?M (lists b))
            = map_option ?M (find (\<lambda>l. list_ex (\<lambda>t. task_id t = overId) (tasks l)) (lists b))"
        by (intro find_map_iff) (simp add: list_ex_taskIds mem)
      with fl nl dl show ?thesis
        by (simp add: resolveDropTarget_def find_map_list_id resolveTaskTarget_find)
    qed
    then obtain target' where tg': "resolveDropTarget (Some ?b') overId = Some target'"
      and same: "listId target' = ?d"
      by blast
    from s' have s'': "currentBoard (afterDragOver fetched s activeId (Some overId)) = Some ?b'"
      by (simp only: over)
    have "list_id dst = ?d"
      using find_in_set [OF dst] by simp
    then show ?thesis
      by (simp add: handleDragOver_def over s'' al' tg' same)
  qed
qed

text \<open>
  C7. On a board that satisfies the data model, applying the move of a task to a
  destination list and position twice gives the board that applying it once gives, for
  the move keyed by task, destination list and position as well as for the store call
  with the same four arguments; and after the store calls of a drag-over, the same
  drag-over event makes no call, so the board stays as it is.
\<close>

theorem move_idempotent:
  assumes "wf_board b"
  shows "applyMove taskId d p (applyMove taskId d p b) = applyMove taskId d p b
       \<and> optimisticMoveTask taskId a d p (optimisticMoveTask taskId a d p b)
           = optimisticMoveTask taskId a d p b
       \<and> (currentBoard s = Some b \<longrightarrow>
            handleDragOver (afterDragOver fetched s activeId over) activeId over = [])"
proof (intro conjI impI)
  show "applyMove taskId d p (applyMove taskId d p b) = applyMove taskId d p b"
  proof (cases "findListContainingTask (Some b) taskId")
    case None
    then show ?thesis by (simp add: applyMove_def)
  next
    case (Some src)
    then have once: "applyMove taskId d p b = optimisticMoveTask taskId (list_id src) d p b"
      by (simp add: applyMove_def)
    from optimisticMoveTask_then [OF assms, of taskId "list_id src" d p] show ?thesis
    proof
      assume "optimisticMoveTask taskId (list_id src) d p b = b"
      with once show ?thesis by simp
    next
      assume "\<forall>a'. optimisticMoveTask taskId a' d p
                 (optimisticMoveTask taskId (list_id src) d p b)
               = optimisticMoveTask taskId (list_id src) d p b"
      with once show ?thesis
        by (simp add: applyMove_def split: option.splits)
    qed
  qed
next
  from optimisticMoveTask_then [OF assms, of taskId a d p]
  show "optimisticMoveTask taskId a d p (optimisticMoveTask taskId a d p b)
           = optimisticMoveTask taskId a d p b"
    by auto
next
  assume "currentBoard s = Some b"
  then show "handleDragOver (afterDragOver fetched s activeId over) activeId over = []"
    using assms by (rule handleDragOver_repeat)
qed

theorem move_idempotent_witness:
  "applyMove ''T2'' ''B'' 0 boardAB = boardMoved
   \<and> applyMove ''T2'' ''B'' 0 (applyMove ''T2'' ''B'' 0 boardAB) = boardMoved
   \<and> optimisticMoveTask ''T2'' ''A'' ''B'' 0 (optimisticMoveTask ''T2'' ''A'' ''B'' 0 boardAB)
       = boardMoved
   \<and> currentBoard pageT2 = Some boardAB
   \<and> handleDragOver pageT2 ''T2'' (Some ''B'') = [OptimisticMoveTask ''T2'' ''A'' ''B'' 0]
   \<and> handleDragOver pageT2overB ''T2'' (Some ''B'') = []"
proof -
  have once: "applyMove ''T2'' ''B'' 0 boardAB = boardMoved"
    by (simp add: applyMove_def findListContainingTask_def optimisticMoveTask_def
        moveInList_def insertAt_def board_eval)
  have ex: "optimisticMoveTask ''T2'' ''A'' ''B'' 0 boardAB = boardMoved"
    by (simp add: optimisticMoveTask_def moveInList_def insertAt_def board_eval)
  have cb: "currentBoard pageT2 = Some boardAB"
    by (simp add: gesture_eval)
  have first: "handleDragOver pageT2 ''T2'' (Some ''B'') = [OptimisticMoveTask ''T2'' ''A'' ''B'' 0]"
    by (simp add: gesture_eval)
  note t = move_idempotent [OF wf_boardAB, of "''T2''" "''B''" 0 "''A''" pageT2 boardAB
      "''T2''" "Some ''B''"]
  from t once have "applyMove ''T2'' ''B'' 0 (applyMove ''T2'' ''B'' 0 boardAB) = boardMoved"
    by simp
  moreover from t ex
  have "optimisticMoveTask ''T2'' ''A'' ''B'' 0 (optimisticMoveTask ''T2'' ''A'' ''B'' 0 boardAB)
       = boardMoved"
    by simp
  moreover from t cb have "handleDragOver pageT2overB ''T2'' (Some ''B'') = []"
    unfolding pageT2overB_def by blast
  ultimately show ?thesis
    using once cb first by blast
qed

end
